theory Spec2Isabelle
  imports Complex_Main "HOL-Library.Char_ord" "HOL-Library.List_Lexorder" "HOL-Library.Sublist"
begin

section \<open>The destination store\<close>

text \<open>
  The four tables of \<^verbatim>\<open>DatabaseManager.create_tables\<close>. A row of \<^verbatim>\<open>Artist\<close> or
  \<^verbatim>\<open>Genre\<close> is the pair of its \<^verbatim>\<open>id\<close> and its name; a row of \<^verbatim>\<open>SongGenre\<close> is the
  pair \<^verbatim>\<open>(song_id, genre_id)\<close>. Tables are lists in insertion order. The fields
  \<open>Artist_seq\<close>, \<open>Genre_seq\<close> and \<open>Song_seq\<close> are the \<^verbatim>\<open>sqlite_sequence\<close> entries that
  \<^verbatim>\<open>AUTOINCREMENT\<close> keeps: the largest rowid the table has ever held.
\<close>

type_synonym name_row = "int \<times> string"

record Song_row =
  Song_id :: int
  Song_song_name :: string
  Song_duration :: int
  Song_explicit :: int
  Song_year :: int
  Song_popularity :: int
  Song_danceability :: real
  Song_speechiness :: real
  Song_artist_id :: int

record db =
  Genre_tbl :: "name_row list"
  Artist_tbl :: "name_row list"
  Song_tbl :: "Song_row list"
  SongGenre_tbl :: "(int \<times> int) list"
  Genre_seq :: int
  Artist_seq :: int
  Song_seq :: int

definition empty_db :: db where
  "empty_db = \<lparr>Genre_tbl = [], Artist_tbl = [], Song_tbl = [], SongGenre_tbl = [],
     Genre_seq = 0, Artist_seq = 0, Song_seq = 0\<rparr>"

text \<open>
  A connection of Python's \<^verbatim>\<open>sqlite3\<close>: \<open>work\<close> is what the connection sees (its
  statements applied), \<open>durable\<close> is what the last \<^verbatim>\<open>commit()\<close> wrote, and \<open>commits\<close>
  counts the calls of \<^verbatim>\<open>commit()\<close>. A process that ends without committing leaves
  \<open>durable\<close> in the file.
\<close>

record conn =
  work :: db
  durable :: db
  commits :: nat

definition connect :: "db \<Rightarrow> conn" where
  "connect d = \<lparr>work = d, durable = d, commits = 0\<rparr>"

definition commit :: "conn \<Rightarrow> conn" where
  "commit c = c\<lparr>durable := work c, commits := Suc (commits c)\<rparr>"

text \<open>The only exception the loader's statements can raise on well-typed values.\<close>

datatype error = IntegrityError

text \<open>A call either raises, leaving the connection as it was at the raise, or returns.\<close>

datatype 'a result = Raise error conn | Return 'a conn

fun conn_of :: "'a result \<Rightarrow> conn" where
  "conn_of (Raise e c) = c"
| "conn_of (Return x c) = c"

text \<open>The two tables \<^verbatim>\<open>get_or_create_id\<close> is called with, each with its name column.\<close>

datatype name_table = Artist | Genre

fun table_of :: "name_table \<Rightarrow> db \<Rightarrow> name_row list" where
  "table_of Artist d = Artist_tbl d"
| "table_of Genre d = Genre_tbl d"

fun seq_of :: "name_table \<Rightarrow> db \<Rightarrow> int" where
  "seq_of Artist d = Artist_seq d"
| "seq_of Genre d = Genre_seq d"

fun store_row :: "name_table \<Rightarrow> name_row \<Rightarrow> db \<Rightarrow> db" where
  "store_row Artist r d = d\<lparr>Artist_tbl := Artist_tbl d @ [r], Artist_seq := fst r\<rparr>"
| "store_row Genre r d = d\<lparr>Genre_tbl := Genre_tbl d @ [r], Genre_seq := fst r\<rparr>"

text \<open>
  \<^verbatim>\<open>INTEGER PRIMARY KEY AUTOINCREMENT\<close>: the new rowid is one more than the largest
  of the rowids in the table and the table's \<^verbatim>\<open>sqlite_sequence\<close> entry.
\<close>

definition next_rowid :: "int \<Rightarrow> int list \<Rightarrow> int" where
  "next_rowid s ids = fold max ids (max s 0) + 1"

text \<open>\<^verbatim>\<open>SELECT id FROM t WHERE name = ?\<close> followed by \<^verbatim>\<open>fetchone()\<close>.\<close>

definition select_id :: "name_row list \<Rightarrow> string \<Rightarrow> int option" where
  "select_id rows v = map_option fst (find (\<lambda>r. snd r = v) rows)"

text \<open>
  \<^verbatim>\<open>INSERT INTO t (name) VALUES (?)\<close>, with the column's \<^verbatim>\<open>UNIQUE\<close> constraint; the
  result carries \<^verbatim>\<open>cursor.lastrowid\<close>.
\<close>

definition insert_name :: "name_table \<Rightarrow> string \<Rightarrow> db \<Rightarrow> error + int \<times> db" where
  "insert_name t v d =
     (if v \<in> snd ` set (table_of t d) then Inl IntegrityError
      else let rid = next_rowid (seq_of t d) (map fst (table_of t d))
           in Inr (rid, store_row t (rid, v) d))"

definition get_or_create_id :: "name_table \<Rightarrow> string \<Rightarrow> conn \<Rightarrow> int result" where
  "get_or_create_id t v c =
     (case select_id (table_of t (work c)) v of
        None \<Rightarrow>
          (case insert_name t v (work c) of
             Inl e \<Rightarrow> Raise e c
           | Inr (rid, d) \<Rightarrow> Return rid (commit (c\<lparr>work := d\<rparr>)))
      | Some i \<Rightarrow> Return i c)"

section \<open>The input rows and their preprocessing\<close>

text \<open>
  A row of the data frame. \<open>csv_row\<close> is a row as \<^verbatim>\<open>read_csv\<close> delivers it, with the
  column \<^verbatim>\<open>duration_ms\<close>; \<open>df_row\<close> is a row after the column has been renamed to
  \<^verbatim>\<open>duration\<close>. The columns of type \<^verbatim>\<open>float64\<close> are the real numbers they denote,
  and a comparison of two of them is the comparison of these numbers.
\<close>

record track =
  song :: string
  artist :: string
  genre :: string
  popularity :: int
  speechiness :: real
  danceability :: real
  explicit :: bool
  year :: int

record csv_row = track +
  duration_ms :: int

record df_row = track +
  duration :: int

text \<open>\<^verbatim>\<open>df.rename(columns={"duration_ms": "duration"})\<close>: the values stay.\<close>

definition rename_duration :: "csv_row \<Rightarrow> df_row" where
  "rename_duration r =
     \<lparr>song = song r, artist = artist r, genre = genre r, popularity = popularity r,
      speechiness = speechiness r, danceability = danceability r, explicit = explicit r,
      year = year r, duration = duration_ms r\<rparr>"

text \<open>
  \<^verbatim>\<open>Series.round()\<close> rounds to the nearest integer and a value half-way between two
  integers to the even one.
\<close>

definition round_half_even :: "real \<Rightarrow> int" where
  "round_half_even x =
     (let f = \<lfloor>x\<rfloor>; d = x - of_int f
      in if d < 1 / 2 then f
         else if 1 / 2 < d then f + 1
         else if even f then f else f + 1)"

text \<open>
  \<^verbatim>\<open>(df["duration"] / 1000).round().astype(int)\<close>. The quotient is taken exactly; the
  \<^verbatim>\<open>float64\<close> quotient rounds to the same integer for every duration below \<open>2 ^ 53\<close>
  milliseconds.
\<close>

definition to_seconds :: "int \<Rightarrow> int" where
  "to_seconds ms = round_half_even (of_int ms / 1000)"

definition convert_duration :: "df_row \<Rightarrow> df_row" where
  "convert_duration r = r\<lparr>duration := to_seconds (duration r)\<rparr>"

text \<open>
  The literals \<^verbatim>\<open>0.33\<close>, \<^verbatim>\<open>0.66\<close> and \<^verbatim>\<open>0.20\<close> of the filter are values of \<^verbatim>\<open>float64\<close>:
  the doubles nearest to these decimals, written here exactly.
\<close>

definition lit_0_33 :: real where
  "lit_0_33 = 5944751508129055 / 2 ^ 54"

definition lit_0_66 :: real where
  "lit_0_66 = 5944751508129055 / 2 ^ 53"

definition lit_0_20 :: real where
  "lit_0_20 = 3602879701896397 / 2 ^ 54"

text \<open>The mask of the filter at lines 48 to 53.\<close>

definition keep_row :: "'a track_scheme \<Rightarrow> bool" where
  "keep_row r \<longleftrightarrow>
     popularity r > 50 \<and> speechiness r \<ge> lit_0_33 \<and> speechiness r \<le> lit_0_66 \<and>
     danceability r > lit_0_20"

text \<open>
  \<^verbatim>\<open>str.lower()\<close> on the letters \<^verbatim>\<open>A\<close> to \<^verbatim>\<open>Z\<close>; a \<open>char\<close> is one byte, and every
  other byte stays as it is.
\<close>

definition lower_char :: "char \<Rightarrow> char" where
  "lower_char c =
     (let n = (of_char c :: nat) in if 65 \<le> n \<and> n \<le> 90 then char_of (n + 32) else c)"

definition lower :: "string \<Rightarrow> string" where
  "lower s = map lower_char s"

text \<open>\<^verbatim>\<open>replace(" ", "_")\<close>.\<close>

definition replace_space :: "string \<Rightarrow> string" where
  "replace_space s = map (\<lambda>c. if c = CHR '' '' then CHR ''_'' else c) s"

text \<open>\<^verbatim>\<open>.lower().replace(" ", "_")\<close>, as the loader and the artist query both write it.\<close>

definition standardize :: "string \<Rightarrow> string" where
  "standardize s = replace_space (lower s)"

definition standardize_artist :: "df_row \<Rightarrow> df_row" where
  "standardize_artist r = r\<lparr>artist := standardize (artist r)\<rparr>"

definition load_and_preprocess_data :: "csv_row list \<Rightarrow> df_row list" where
  "load_and_preprocess_data csv =
     map standardize_artist
       (filter keep_row (map convert_duration (map rename_duration csv)))"

section \<open>The loader\<close>

text \<open>
  \<^verbatim>\<open>str.split(", ")\<close>: the text between the occurrences of the separator, found from
  the left and not overlapping. \<open>acc\<close> holds the current token, reversed.
\<close>

fun split_from :: "string \<Rightarrow> string \<Rightarrow> string list" where
  "split_from acc [] = [rev acc]"
| "split_from acc [c] = [rev (c # acc)]"
| "split_from acc (c # d # cs) =
     (if c = CHR '','' \<and> d = CHR '' '' then rev acc # split_from [] cs
      else split_from (c # acc) (d # cs))"

definition split_comma_space :: "string \<Rightarrow> string list" where
  "split_comma_space s = split_from [] s"

text \<open>
  \<^verbatim>\<open>INSERT INTO Song (...) VALUES (...)\<close> with the tuple of values the loader binds;
  the result carries \<^verbatim>\<open>cursor.lastrowid\<close>.
\<close>

definition song_values :: "df_row \<Rightarrow> int \<Rightarrow> int \<Rightarrow> Song_row" where
  "song_values r aid sid =
     \<lparr>Song_id = sid, Song_song_name = song r, Song_duration = duration r,
      Song_explicit = (if explicit r then 1 else 0), Song_year = year r,
      Song_popularity = popularity r, Song_danceability = danceability r,
      Song_speechiness = speechiness r, Song_artist_id = aid\<rparr>"

definition insert_song :: "df_row \<Rightarrow> int \<Rightarrow> db \<Rightarrow> int \<times> db" where
  "insert_song r aid d =
     (let sid = next_rowid (Song_seq d) (map Song_id (Song_tbl d))
      in (sid, d\<lparr>Song_tbl := Song_tbl d @ [song_values r aid sid], Song_seq := sid\<rparr>))"

text \<open>
  \<^verbatim>\<open>INSERT INTO SongGenre (song_id, genre_id) VALUES (?, ?)\<close>, with the primary key
  \<^verbatim>\<open>(song_id, genre_id)\<close>. Foreign keys are declared and, as \<^verbatim>\<open>sqlite3\<close> connects, not
  enforced.
\<close>

definition insert_songgenre :: "int \<times> int \<Rightarrow> db \<Rightarrow> error + db" where
  "insert_songgenre p d =
     (if p \<in> set (SongGenre_tbl d) then Inl IntegrityError
      else Inr (d\<lparr>SongGenre_tbl := SongGenre_tbl d @ [p]\<rparr>))"

text \<open>The inner loop of \<^verbatim>\<open>populate_database\<close>, over the tokens of one row.\<close>

fun link_genres :: "int \<Rightarrow> string list \<Rightarrow> conn \<Rightarrow> unit result" where
  "link_genres sid [] c = Return () c"
| "link_genres sid (g # gs) c =
     (case get_or_create_id Genre g c of
        Raise e c1 \<Rightarrow> Raise e c1
      | Return gid c1 \<Rightarrow>
          (case insert_songgenre (sid, gid) (work c1) of
             Inl e \<Rightarrow> Raise e c1
           | Inr d \<Rightarrow> link_genres sid gs (c1\<lparr>work := d\<rparr>)))"

text \<open>The body of the outer loop, for one row.\<close>

definition load_row :: "df_row \<Rightarrow> conn \<Rightarrow> unit result" where
  "load_row r c =
     (case get_or_create_id Artist (artist r) c of
        Raise e c1 \<Rightarrow> Raise e c1
      | Return aid c1 \<Rightarrow>
          (case insert_song r aid (work c1) of
             (sid, d) \<Rightarrow> link_genres sid (split_comma_space (genre r)) (c1\<lparr>work := d\<rparr>)))"

fun load_rows :: "df_row list \<Rightarrow> conn \<Rightarrow> unit result" where
  "load_rows [] c = Return () c"
| "load_rows (r # rs) c =
     (case load_row r c of
        Raise e c1 \<Rightarrow> Raise e c1
      | Return u c1 \<Rightarrow> load_rows rs c1)"

definition populate_database :: "df_row list \<Rightarrow> conn \<Rightarrow> unit result" where
  "populate_database data c =
     (case load_rows data c of
        Raise e c1 \<Rightarrow> Raise e c1
      | Return u c1 \<Rightarrow> Return () (commit c1))"

text \<open>
  \<^verbatim>\<open>create_tables\<close>: each \<^verbatim>\<open>CREATE TABLE IF NOT EXISTS\<close> leaves the rows of a table that
  exists, and a table that does not exist yet is the empty list; then \<^verbatim>\<open>commit()\<close>.
\<close>

definition create_tables :: "conn \<Rightarrow> conn" where
  "create_tables c = commit c"

text \<open>\<^verbatim>\<open>conn.close()\<close>: what stays in the file is what was committed.\<close>

definition close_connection :: "conn \<Rightarrow> db" where
  "close_connection c = durable c"

text \<open>
  \<^verbatim>\<open>main\<close> of the loader on the rows of the CSV file and the content of the database
  file: the exception that ended the run, if one did, and the content of the file after.
\<close>

definition main :: "csv_row list \<Rightarrow> db \<Rightarrow> error option \<times> db" where
  "main csv file =
     (case populate_database (load_and_preprocess_data csv) (create_tables (connect file)) of
        Raise e c \<Rightarrow> (Some e, durable c)
      | Return u c \<Rightarrow> (None, close_connection c))"

section \<open>The artist popularity analyzer\<close>













section \<open>The constraints of the schema\<close>

text \<open>
  What \<^verbatim>\<open>create_tables\<close> declares: the primary keys and the \<^verbatim>\<open>UNIQUE\<close> names are
  distinct, \<^verbatim>\<open>Song.artist_id\<close> is the id of a row of \<^verbatim>\<open>Artist\<close>, and a row of
  \<^verbatim>\<open>SongGenre\<close> holds the id of a row of \<^verbatim>\<open>Song\<close> and the id of a row of
  \<^verbatim>\<open>Genre\<close>.
\<close>

definition consistent :: "db \<Rightarrow> bool" where
  "consistent d \<longleftrightarrow>
     distinct (map snd (Artist_tbl d)) \<and> distinct (map snd (Genre_tbl d)) \<and>
     distinct (map fst (Artist_tbl d)) \<and> distinct (map fst (Genre_tbl d)) \<and>
     distinct (map Song_id (Song_tbl d)) \<and> distinct (SongGenre_tbl d) \<and>
     (\<forall>s \<in> set (Song_tbl d). Song_artist_id s \<in> fst ` set (Artist_tbl d)) \<and>
     (\<forall>p \<in> set (SongGenre_tbl d).
        fst p \<in> Song_id ` set (Song_tbl d) \<and> snd p \<in> fst ` set (Genre_tbl d))"

text \<open>Both what the connection sees and what is in the file satisfy the constraints.\<close>

definition conn_ok :: "conn \<Rightarrow> bool" where
  "conn_ok c \<longleftrightarrow> consistent (work c) \<and> consistent (durable c)"

section \<open>What a run has written\<close>

text \<open>No statement of the loader deletes or updates a row: every table only grows at its end.\<close>

definition extends :: "db \<Rightarrow> db \<Rightarrow> bool" where
  "extends d d' \<longleftrightarrow>
     prefix (Artist_tbl d) (Artist_tbl d') \<and> prefix (Genre_tbl d) (Genre_tbl d') \<and>
     prefix (Song_tbl d) (Song_tbl d') \<and> prefix (SongGenre_tbl d) (SongGenre_tbl d')"

text \<open>
  The rows one row \<open>r\<close> of the data frame has produced, read against the store \<open>d\<close>: the
  \<^verbatim>\<open>Song\<close> row \<open>fst x\<close> holds the values of \<open>r\<close> and the id that the name
  \<^verbatim>\<open>row["artist"]\<close> selects in \<^verbatim>\<open>Artist\<close>, and \<open>snd x\<close> holds, token by token of
  \<^verbatim>\<open>row["genre"].split(", ")\<close>, the pair of the id of that \<^verbatim>\<open>Song\<close> row and the id the
  token selects in \<^verbatim>\<open>Genre\<close>.
\<close>

definition loaded_from :: "db \<Rightarrow> df_row \<Rightarrow> Song_row \<times> (int \<times> int) list \<Rightarrow> bool" where
  "loaded_from d r x \<longleftrightarrow>
     fst x = song_values r (Song_artist_id (fst x)) (Song_id (fst x)) \<and>
     select_id (Artist_tbl d) (artist r) = Some (Song_artist_id (fst x)) \<and>
     list_all2 (\<lambda>g p. fst p = Song_id (fst x) \<and> select_id (Genre_tbl d) g = Some (snd p))
       (split_comma_space (genre r)) (snd x)"

text \<open>The number of rows of \<^verbatim>\<open>Artist\<close> and \<^verbatim>\<open>Genre\<close> together.\<close>

definition created :: "conn \<Rightarrow> nat" where
  "created c = length (Artist_tbl (work c)) + length (Genre_tbl (work c))"

text \<open>
  The invariants as the specification words them: the names of \<^verbatim>\<open>Artist\<close> are pairwise
  distinct, the names of \<^verbatim>\<open>Genre\<close> are pairwise distinct, every \<^verbatim>\<open>Song\<close> row references
  exactly one row of \<^verbatim>\<open>Artist\<close>, and every \<^verbatim>\<open>SongGenre\<close> pair references a row of
  \<^verbatim>\<open>Song\<close> and a row of \<^verbatim>\<open>Genre\<close>.
\<close>

definition spec_invariants :: "db \<Rightarrow> bool" where
  "spec_invariants d \<longleftrightarrow>
     distinct (map snd (Artist_tbl d)) \<and> distinct (map snd (Genre_tbl d)) \<and>
     (\<forall>s \<in> set (Song_tbl d).
        length (filter (\<lambda>a. fst a = Song_artist_id s) (Artist_tbl d)) = 1) \<and>
     (\<forall>p \<in> set (SongGenre_tbl d).
        (\<exists>s \<in> set (Song_tbl d). Song_id s = fst p) \<and>
        (\<exists>g \<in> set (Genre_tbl d). fst g = snd p))"

text \<open>The input row of the specification's example.\<close>

definition spec_row :: csv_row where
  "spec_row =
     \<lparr>song = ''X'', artist = ''Foo Bar'', genre = ''pop, rock'', popularity = 70,
      speechiness = 0.5, danceability = 0.5, explicit = False, year = 2005,
      duration_ms = 200000\<rparr>"

text \<open>The three steps of \<^verbatim>\<open>load_and_preprocess_data\<close> that a row which is kept goes through.\<close>

definition preprocess_row :: "csv_row \<Rightarrow> df_row" where
  "preprocess_row r = standardize_artist (convert_duration (rename_duration r))"

text \<open>The store that the specification's example describes.\<close>

definition spec_db :: db where
  "spec_db =
     \<lparr>Genre_tbl = [(1, ''pop''), (2, ''rock'')], Artist_tbl = [(1, ''foo_bar'')],
      Song_tbl = [\<lparr>Song_id = 1, Song_song_name = ''X'', Song_duration = 200,
        Song_explicit = 0, Song_year = 2005, Song_popularity = 70,
        Song_danceability = 0.5, Song_speechiness = 0.5, Song_artist_id = 1\<rparr>],
      SongGenre_tbl = [(1, 1), (1, 2)], Genre_seq = 2, Artist_seq = 1, Song_seq = 1\<rparr>"

text \<open>\<^verbatim>\<open>", ".join(tokens)\<close>, to say what \<^verbatim>\<open>split(", ")\<close> has cut.\<close>

fun join_comma_space :: "string list \<Rightarrow> string" where
  "join_comma_space [] = []"
| "join_comma_space [t] = t"
| "join_comma_space (t # u # ts) = t @ '', '' @ join_comma_space (u # ts)"

section \<open>Rowids and lookups\<close>

lemma fold_max_ge_init: "(m::int) \<le> fold max ids m"
  by (induction ids arbitrary: m) (auto intro: order_trans [OF max.cobounded2])

lemma fold_max_ge_elem: "x \<in> set ids \<Longrightarrow> (x::int) \<le> fold max ids m"
proof (induction ids arbitrary: m)
  case Nil
  then show ?case by simp
next
  case (Cons y ys)
  show ?case
  proof (cases "x = y")
    case True
    have "y \<le> max y m" by simp
    also have "\<dots> \<le> fold max ys (max y m)" by (rule fold_max_ge_init)
    finally show ?thesis using True by simp
  next
    case False
    with Cons.prems have "x \<in> set ys" by simp
    then show ?thesis using Cons.IH by simp
  qed
qed

lemma next_rowid_greater: "x \<in> set ids \<Longrightarrow> x < next_rowid s ids"
  using fold_max_ge_elem [of x ids "max s 0"] by (simp add: next_rowid_def)

lemma next_rowid_fresh: "next_rowid s ids \<notin> set ids"
  using next_rowid_greater [of "next_rowid s ids" ids s] by auto

lemma next_rowid_pos: "0 < next_rowid s ids"
  using fold_max_ge_init [of "max s 0" ids] by (simp add: next_rowid_def)

lemma select_id_None_iff: "select_id rows v = None \<longleftrightarrow> v \<notin> snd ` set rows"
  by (induction rows) (auto simp: select_id_def)

lemma select_id_SomeD: "select_id rows v = Some i \<Longrightarrow> (i, v) \<in> set rows"
  by (induction rows) (auto simp: select_id_def split: if_splits)

lemma select_id_append: "select_id rows v = Some i \<Longrightarrow> select_id (rows @ rows2) v = Some i"
  by (induction rows) (auto simp: select_id_def)

lemma select_id_snoc_new: "select_id rows v = None \<Longrightarrow> select_id (rows @ [(i, v)]) v = Some i"
  by (induction rows) (auto simp: select_id_def split: if_splits)

lemma select_id_unique:
  "distinct (map snd rows) \<Longrightarrow> (i, v) \<in> set rows \<Longrightarrow> select_id rows v = Some i"
  by (induction rows) (auto simp: select_id_def rev_image_eqI)

lemma get_or_create_id_hit:
  "select_id (table_of t (work c)) v = Some i \<Longrightarrow> get_or_create_id t v c = Return i c"
  by (simp add: get_or_create_id_def)

lemma get_or_create_id_miss:
  "select_id (table_of t (work c)) v = None \<Longrightarrow>
   get_or_create_id t v c =
     Return (next_rowid (seq_of t (work c)) (map fst (table_of t (work c))))
       (commit (c\<lparr>work := store_row t
          (next_rowid (seq_of t (work c)) (map fst (table_of t (work c))), v) (work c)\<rparr>))"
proof -
  assume miss: "select_id (table_of t (work c)) v = None"
  then have "v \<notin> snd ` set (table_of t (work c))"
    by (simp add: select_id_None_iff)
  then have "insert_name t v (work c) =
      Inr (next_rowid (seq_of t (work c)) (map fst (table_of t (work c))),
           store_row t (next_rowid (seq_of t (work c)) (map fst (table_of t (work c))), v)
             (work c))"
    by (simp add: insert_name_def Let_def)
  with miss show ?thesis
    by (simp add: get_or_create_id_def)
qed

lemma table_of_store_row_same: "table_of t (store_row t r d) = table_of t d @ [r]"
  by (cases t) simp_all

lemma count_key_snoc:
  "v \<notin> snd ` set rows \<Longrightarrow> length (filter (\<lambda>r. snd r = v) (rows @ [(i, v)])) = 1"
  by (induction rows) auto

lemma count_key_distinct:
  "distinct (map snd rows) \<Longrightarrow> (i, v) \<in> set rows \<Longrightarrow> length (filter (\<lambda>r. snd r = v) rows) = 1"
  by (induction rows) (auto simp: rev_image_eqI filter_empty_conv)

section \<open>Every statement of the loader keeps the constraints\<close>

lemma get_or_create_id_cases:
  obtains (hit) i where "select_id (table_of t (work c)) v = Some i"
      and "get_or_create_id t v c = Return i c"
  | (miss) rid where "select_id (table_of t (work c)) v = None"
      and "rid = next_rowid (seq_of t (work c)) (map fst (table_of t (work c)))"
      and "get_or_create_id t v c = Return rid (commit (c\<lparr>work := store_row t (rid, v) (work c)\<rparr>))"
proof (cases "select_id (table_of t (work c)) v")
  case None
  then show ?thesis using get_or_create_id_miss [OF None] miss by blast
next
  case (Some i)
  then show ?thesis using get_or_create_id_hit [OF Some] hit by blast
qed

lemma consistent_store_row:
  assumes "consistent d" and "v \<notin> snd ` set (table_of t d)"
    and "rid \<notin> fst ` set (table_of t d)"
  shows "consistent (store_row t (rid, v) d)"
  using assms by (cases t) (auto simp: consistent_def)

lemma next_rowid_not_in_table: "next_rowid s (map fst rows) \<notin> fst ` set rows"
  using next_rowid_fresh [of s "map fst rows"] by simp

lemma conn_ok_get_or_create_id:
  assumes "conn_ok c"
  shows "conn_ok (conn_of (get_or_create_id t v c))"
proof (cases t v c rule: get_or_create_id_cases)
  case (hit i)
  then show ?thesis using assms by simp
next
  case (miss rid)
  have "v \<notin> snd ` set (table_of t (work c))"
    using miss(1) by (simp add: select_id_None_iff)
  moreover have "rid \<notin> fst ` set (table_of t (work c))"
    unfolding miss(2) by (rule next_rowid_not_in_table)
  moreover have "consistent (work c)" using assms by (simp add: conn_ok_def)
  ultimately have "consistent (store_row t (rid, v) (work c))"
    by (simp add: consistent_store_row)
  then show ?thesis by (simp add: miss(3) conn_ok_def commit_def)
qed

lemma consistent_insert_song:
  assumes "consistent d" and "aid \<in> fst ` set (Artist_tbl d)"
  shows "consistent (snd (insert_song r aid d))"
proof -
  have "next_rowid (Song_seq d) (map Song_id (Song_tbl d)) \<notin> Song_id ` set (Song_tbl d)"
    using next_rowid_fresh [of "Song_seq d" "map Song_id (Song_tbl d)"] by simp
  then show ?thesis
    using assms by (auto simp: consistent_def insert_song_def Let_def song_values_def)
qed

lemma consistent_insert_songgenre:
  assumes "consistent d" and "insert_songgenre (sid, gid) d = Inr d'"
    and "sid \<in> Song_id ` set (Song_tbl d)" and "gid \<in> fst ` set (Genre_tbl d)"
  shows "consistent d'"
proof -
  from assms(2) have new: "(sid, gid) \<notin> set (SongGenre_tbl d)"
    and d': "d' = d\<lparr>SongGenre_tbl := SongGenre_tbl d @ [(sid, gid)]\<rparr>"
    by (auto simp: insert_songgenre_def split: if_splits)
  show ?thesis
    using assms(1,3,4) new unfolding d' consistent_def by simp
qed


lemma get_or_create_id_no_raise: "get_or_create_id t v c \<noteq> Raise e c1"
  by (cases t v c rule: get_or_create_id_cases) simp_all

lemma get_or_create_id_resolves:
  "get_or_create_id t v c = Return i c1 \<Longrightarrow> select_id (table_of t (work c1)) v = Some i"
proof (cases t v c rule: get_or_create_id_cases)
  case (hit j)
  assume "get_or_create_id t v c = Return i c1"
  with hit show ?thesis by simp
next
  case (miss rid)
  assume "get_or_create_id t v c = Return i c1"
  with miss(3) have "i = rid" and "c1 = commit (c\<lparr>work := store_row t (rid, v) (work c)\<rparr>)"
    by simp_all
  then show ?thesis
    using select_id_snoc_new [OF miss(1), of rid]
    by (simp add: commit_def table_of_store_row_same)
qed

lemma get_or_create_id_Song_tbl:
  "get_or_create_id t v c = Return i c1 \<Longrightarrow> Song_tbl (work c1) = Song_tbl (work c)"
  by (cases t v c rule: get_or_create_id_cases; cases t) (auto simp: commit_def)

lemma get_or_create_id_SongGenre_tbl:
  "get_or_create_id t v c = Return i c1 \<Longrightarrow> SongGenre_tbl (work c1) = SongGenre_tbl (work c)"
  by (cases t v c rule: get_or_create_id_cases; cases t) (auto simp: commit_def)

lemma insert_songgenre_Inr:
  "insert_songgenre p d = Inr d' \<Longrightarrow>
   p \<notin> set (SongGenre_tbl d) \<and> d' = d\<lparr>SongGenre_tbl := SongGenre_tbl d @ [p]\<rparr>"
  by (cases "p \<in> set (SongGenre_tbl d)") (simp_all add: insert_songgenre_def)

lemma insert_songgenre_Song_tbl: "insert_songgenre p d = Inr d' \<Longrightarrow> Song_tbl d' = Song_tbl d"
  by (drule insert_songgenre_Inr) simp

lemma insert_song_eq:
  "insert_song r aid d = (sid, d') \<Longrightarrow>
   sid = next_rowid (Song_seq d) (map Song_id (Song_tbl d)) \<and>
   d' = d\<lparr>Song_tbl := Song_tbl d @ [song_values r aid sid], Song_seq := sid\<rparr>"
  by (auto simp: insert_song_def Let_def)

lemma Song_id_song_values: "Song_id (song_values r aid sid) = sid"
  by (simp add: song_values_def)

lemma insert_song_id_stored:
  "insert_song r aid d = (sid, d') \<Longrightarrow> sid \<in> Song_id ` set (Song_tbl d')"
  by (drule insert_song_eq) (simp add: Song_id_song_values)

lemma conn_ok_link_genres:
  assumes "conn_ok c" and "sid \<in> Song_id ` set (Song_tbl (work c))"
  shows "conn_ok (conn_of (link_genres sid gs c))"
  using assms
proof (induction gs arbitrary: c)
  case Nil
  then show ?case by simp
next
  case (Cons g gs)
  show ?case
  proof (cases "get_or_create_id Genre g c")
    case (Raise e c1)
    then show ?thesis by (simp add: get_or_create_id_no_raise)
  next
    case (Return gid c1)
    have ok1: "conn_ok c1"
      using conn_ok_get_or_create_id [OF Cons.prems(1), of Genre g] Return by simp
    have sid1: "sid \<in> Song_id ` set (Song_tbl (work c1))"
      using Cons.prems(2) get_or_create_id_Song_tbl [OF Return] by simp
    have "(gid, g) \<in> set (Genre_tbl (work c1))"
      using select_id_SomeD [OF get_or_create_id_resolves [OF Return]] by simp
    then have "fst (gid, g) \<in> fst ` set (Genre_tbl (work c1))" by (rule imageI)
    then have gid1: "gid \<in> fst ` set (Genre_tbl (work c1))" by simp
    show ?thesis
    proof (cases "insert_songgenre (sid, gid) (work c1)")
      case (Inl e)
      then show ?thesis using Return ok1 by simp
    next
      case (Inr d)
      have "consistent (work c1)" using ok1 by (simp add: conn_ok_def)
      then have "consistent d"
        using Inr sid1 gid1 by (rule consistent_insert_songgenre)
      then have "conn_ok (c1\<lparr>work := d\<rparr>)"
        using ok1 by (simp add: conn_ok_def)
      moreover have "Song_tbl d = Song_tbl (work c1)"
        using Inr by (rule insert_songgenre_Song_tbl)
      ultimately have "conn_ok (conn_of (link_genres sid gs (c1\<lparr>work := d\<rparr>)))"
        using sid1 by (simp add: Cons.IH)
      then show ?thesis using Return Inr by simp
    qed
  qed
qed

lemma conn_ok_load_row:
  assumes "conn_ok c"
  shows "conn_ok (conn_of (load_row r c))"
proof (cases "get_or_create_id Artist (artist r) c")
  case (Raise e c1)
  then show ?thesis by (simp add: get_or_create_id_no_raise)
next
  case (Return aid c1)
  have ok1: "conn_ok c1"
    using conn_ok_get_or_create_id [OF assms, of Artist "artist r"] Return by simp
  have "(aid, artist r) \<in> set (Artist_tbl (work c1))"
    using select_id_SomeD [OF get_or_create_id_resolves [OF Return]] by simp
  then have "fst (aid, artist r) \<in> fst ` set (Artist_tbl (work c1))" by (rule imageI)
  then have aid1: "aid \<in> fst ` set (Artist_tbl (work c1))" by simp
  obtain sid d where ins: "insert_song r aid (work c1) = (sid, d)"
    by (cases "insert_song r aid (work c1)")
  have "consistent d"
    using consistent_insert_song [of "work c1" aid r] ok1 aid1 ins by (simp add: conn_ok_def)
  then have "conn_ok (c1\<lparr>work := d\<rparr>)"
    using ok1 by (simp add: conn_ok_def)
  moreover have "sid \<in> Song_id ` set (Song_tbl d)"
    using ins by (rule insert_song_id_stored)
  ultimately have "conn_ok (conn_of (link_genres sid (split_comma_space (genre r)) (c1\<lparr>work := d\<rparr>)))"
    by (simp add: conn_ok_link_genres)
  then show ?thesis using Return ins by (simp add: load_row_def)
qed

lemma conn_ok_load_rows: "conn_ok c \<Longrightarrow> conn_ok (conn_of (load_rows data c))"
proof (induction data arbitrary: c)
  case Nil
  then show ?case by simp
next
  case (Cons r rs)
  show ?case
  proof (cases "load_row r c")
    case (Raise e c1)
    then show ?thesis using conn_ok_load_row [OF Cons.prems, of r] by simp
  next
    case (Return u c1)
    then have "conn_ok c1" using conn_ok_load_row [OF Cons.prems, of r] by simp
    then have "conn_ok (conn_of (load_rows rs c1))" by (rule Cons.IH)
    then show ?thesis by (simp add: Return)
  qed
qed

lemma conn_ok_commit: "conn_ok c \<Longrightarrow> conn_ok (commit c)"
  by (simp add: conn_ok_def commit_def)

lemma conn_ok_populate_database:
  assumes "conn_ok c"
  shows "conn_ok (conn_of (populate_database data c))"
proof (cases "load_rows data c")
  case (Raise e c1)
  then show ?thesis
    using conn_ok_load_rows [OF assms, of data] by (simp add: populate_database_def)
next
  case (Return u c1)
  then have "conn_ok c1"
    using conn_ok_load_rows [OF assms, of data] by simp
  then have "conn_ok (commit c1)" by (rule conn_ok_commit)
  then show ?thesis by (simp add: populate_database_def Return)
qed

section \<open>The rows a run appends\<close>

lemma extends_refl: "extends d d"
  by (simp add: extends_def)

lemma extends_trans: "extends d1 d2 \<Longrightarrow> extends d2 d3 \<Longrightarrow> extends d1 d3"
  unfolding extends_def by (meson prefix_order.trans)

lemma select_id_prefix:
  "prefix rows rows' \<Longrightarrow> select_id rows v = Some i \<Longrightarrow> select_id rows' v = Some i"
  by (auto simp: prefix_def select_id_append)

lemma extends_store_row: "extends d (store_row t r d)"
  by (cases t) (simp_all add: extends_def)

lemma get_or_create_id_extends:
  "get_or_create_id t v c = Return i c1 \<Longrightarrow> extends (work c) (work c1)"
  by (cases t v c rule: get_or_create_id_cases)
     (auto simp: commit_def extends_refl extends_store_row)

lemma get_or_create_id_other_table:
  "get_or_create_id t v c = Return i c1 \<Longrightarrow> t' \<noteq> t \<Longrightarrow>
   table_of t' (work c1) = table_of t' (work c)"
  by (cases t v c rule: get_or_create_id_cases; cases t; cases t') (auto simp: commit_def)

lemma insert_songgenre_extends: "insert_songgenre p d = Inr d' \<Longrightarrow> extends d d'"
  by (drule insert_songgenre_Inr) (simp add: extends_def)

lemma insert_song_extends: "insert_song r aid d = (sid, d') \<Longrightarrow> extends d d'"
  by (drule insert_song_eq) (simp add: extends_def)

lemma loaded_from_extends:
  assumes "loaded_from d r x" and "extends d d'"
  shows "loaded_from d' r x"
proof -
  have "prefix (Artist_tbl d) (Artist_tbl d')" and g: "prefix (Genre_tbl d) (Genre_tbl d')"
    using assms(2) by (simp_all add: extends_def)
  then have "select_id (Artist_tbl d') (artist r) = Some (Song_artist_id (fst x))"
    using assms(1) by (simp add: loaded_from_def select_id_prefix)
  moreover have "list_all2 (\<lambda>g p. fst p = Song_id (fst x) \<and> select_id (Genre_tbl d') g = Some (snd p))
       (split_comma_space (genre r)) (snd x)"
    using assms(1) unfolding loaded_from_def
    by (auto elim!: list_all2_mono simp: select_id_prefix [OF g])
  ultimately show ?thesis using assms(1) by (simp add: loaded_from_def)
qed

text \<open>The inner loop: what it appends, and what it leaves.\<close>

lemma link_genres_Return:
  assumes "link_genres sid gs c = Return u c'"
  shows "extends (work c) (work c') \<and> Song_tbl (work c') = Song_tbl (work c) \<and>
         Artist_tbl (work c') = Artist_tbl (work c) \<and>
         (\<exists>links. SongGenre_tbl (work c') = SongGenre_tbl (work c) @ links \<and>
            list_all2 (\<lambda>g p. fst p = sid \<and> select_id (Genre_tbl (work c')) g = Some (snd p))
              gs links)"
  using assms
proof (induction gs arbitrary: c)
  case Nil
  then show ?case by (simp add: extends_refl)
next
  case (Cons g gs)
  from Cons.prems obtain gid c1 where g1: "get_or_create_id Genre g c = Return gid c1"
    by (cases "get_or_create_id Genre g c") simp_all
  from Cons.prems g1 obtain d where ins: "insert_songgenre (sid, gid) (work c1) = Inr d"
    and rest: "link_genres sid gs (c1\<lparr>work := d\<rparr>) = Return u c'"
    by (cases "insert_songgenre (sid, gid) (work c1)") simp_all
  note d = insert_songgenre_Inr [OF ins]
  from Cons.IH [OF rest] obtain links where
    ext: "extends d (work c')" and song: "Song_tbl (work c') = Song_tbl d"
    and art: "Artist_tbl (work c') = Artist_tbl d"
    and sg: "SongGenre_tbl (work c') = SongGenre_tbl d @ links"
    and all: "list_all2 (\<lambda>g p. fst p = sid \<and> select_id (Genre_tbl (work c')) g = Some (snd p)) gs links"
    by auto
  have e1: "extends (work c) (work c1)" using g1 by (rule get_or_create_id_extends)
  have e2: "extends (work c1) d" using ins by (rule insert_songgenre_extends)
  have e: "extends (work c) (work c')"
    using e1 e2 ext by (blast intro: extends_trans)
  have "select_id (Genre_tbl (work c1)) g = Some gid"
    using get_or_create_id_resolves [OF g1] by simp
  then have res: "select_id (Genre_tbl (work c')) g = Some gid"
    using extends_trans [OF e2 ext] by (auto simp: extends_def intro: select_id_prefix)
  have "Song_tbl (work c') = Song_tbl (work c)"
    using song d get_or_create_id_Song_tbl [OF g1] by simp
  moreover have "Artist_tbl (work c') = Artist_tbl (work c)"
    using art d get_or_create_id_other_table [OF g1, of Artist] by simp
  moreover have "SongGenre_tbl (work c') = SongGenre_tbl (work c) @ (sid, gid) # links"
    using sg d get_or_create_id_SongGenre_tbl [OF g1] by simp
  moreover have "list_all2 (\<lambda>g p. fst p = sid \<and> select_id (Genre_tbl (work c')) g = Some (snd p))
      (g # gs) ((sid, gid) # links)"
    using all res by simp
  ultimately show ?case using e by blast
qed


text \<open>One pass of the outer loop.\<close>

lemma load_row_Return:
  assumes "load_row r c = Return u c'"
  shows "extends (work c) (work c') \<and>
         (\<exists>x. Song_tbl (work c') = Song_tbl (work c) @ [fst x] \<and>
            SongGenre_tbl (work c') = SongGenre_tbl (work c) @ snd x \<and>
            Song_id (fst x) = next_rowid (Song_seq (work c)) (map Song_id (Song_tbl (work c))) \<and>
            loaded_from (work c') r x)"
proof -
  from assms obtain aid c1 where a1: "get_or_create_id Artist (artist r) c = Return aid c1"
    by (cases "get_or_create_id Artist (artist r) c") (simp_all add: load_row_def)
  obtain sid d where ins: "insert_song r aid (work c1) = (sid, d)"
    by (cases "insert_song r aid (work c1)")
  from assms a1 ins
  have rest: "link_genres sid (split_comma_space (genre r)) (c1\<lparr>work := d\<rparr>) = Return u c'"
    by (simp add: load_row_def)
  note d = insert_song_eq [OF ins]
  from link_genres_Return [OF rest] obtain links where
    ext: "extends d (work c')" and song: "Song_tbl (work c') = Song_tbl d"
    and art: "Artist_tbl (work c') = Artist_tbl d"
    and sg: "SongGenre_tbl (work c') = SongGenre_tbl d @ links"
    and all: "list_all2 (\<lambda>g p. fst p = sid \<and> select_id (Genre_tbl (work c')) g = Some (snd p))
        (split_comma_space (genre r)) links"
    by auto
  have e1: "extends (work c) (work c1)" using a1 by (rule get_or_create_id_extends)
  have e2: "extends (work c1) d" using ins by (rule insert_song_extends)
  have e: "extends (work c) (work c')"
    using e1 e2 ext by (blast intro: extends_trans)
  have "select_id (Artist_tbl (work c1)) (artist r) = Some aid"
    using get_or_create_id_resolves [OF a1] by simp
  then have res: "select_id (Artist_tbl (work c')) (artist r) = Some aid"
    using art d by simp
  let ?x = "(song_values r aid sid, links)"
  have "Song_tbl (work c') = Song_tbl (work c) @ [fst ?x]"
    using song d get_or_create_id_Song_tbl [OF a1] by simp
  moreover have "SongGenre_tbl (work c') = SongGenre_tbl (work c) @ snd ?x"
    using sg d get_or_create_id_SongGenre_tbl [OF a1] by simp
  moreover have "Song_id (fst ?x) =
      next_rowid (Song_seq (work c)) (map Song_id (Song_tbl (work c)))"
  proof -
    have "Song_seq (work c1) = Song_seq (work c)"
      by (cases Artist "artist r" c rule: get_or_create_id_cases)
         (use a1 in \<open>auto simp: commit_def\<close>)
    then show ?thesis
      using d get_or_create_id_Song_tbl [OF a1] by (simp add: Song_id_song_values)
  qed
  moreover have "loaded_from (work c') r ?x"
    using res all by (simp add: loaded_from_def song_values_def)
  ultimately show ?thesis using e by blast
qed

text \<open>The whole outer loop: row by row, the rows appended.\<close>

lemma load_rows_Return:
  assumes "load_rows data c = Return u c'"
  shows "extends (work c) (work c') \<and>
         (\<exists>xs. Song_tbl (work c') = Song_tbl (work c) @ map fst xs \<and>
            SongGenre_tbl (work c') = SongGenre_tbl (work c) @ concat (map snd xs) \<and>
            list_all2 (loaded_from (work c')) data xs)"
  using assms
proof (induction data arbitrary: c)
  case Nil
  then show ?case by (simp add: extends_refl)
next
  case (Cons r rs)
  from Cons.prems obtain u1 c1 where r1: "load_row r c = Return u1 c1"
    and rest: "load_rows rs c1 = Return u c'"
    by (cases "load_row r c") simp_all
  from load_row_Return [OF r1] obtain x where
    e1: "extends (work c) (work c1)"
    and song1: "Song_tbl (work c1) = Song_tbl (work c) @ [fst x]"
    and sg1: "SongGenre_tbl (work c1) = SongGenre_tbl (work c) @ snd x"
    and x: "loaded_from (work c1) r x"
    by blast
  from Cons.IH [OF rest] obtain xs where
    e2: "extends (work c1) (work c')"
    and song2: "Song_tbl (work c') = Song_tbl (work c1) @ map fst xs"
    and sg2: "SongGenre_tbl (work c') = SongGenre_tbl (work c1) @ concat (map snd xs)"
    and xs: "list_all2 (loaded_from (work c')) rs xs"
    by blast
  have "extends (work c) (work c')" using e1 e2 by (rule extends_trans)
  moreover have "Song_tbl (work c') = Song_tbl (work c) @ map fst (x # xs)"
    using song1 song2 by simp
  moreover have "SongGenre_tbl (work c') = SongGenre_tbl (work c) @ concat (map snd (x # xs))"
    using sg1 sg2 by simp
  moreover have "list_all2 (loaded_from (work c')) (r # rs) (x # xs)"
    using xs loaded_from_extends [OF x e2] by simp
  ultimately show ?case by blast
qed

lemma populate_database_Return:
  assumes "populate_database data c = Return u c'"
  shows "durable c' = work c' \<and> extends (work c) (work c') \<and>
         (\<exists>xs. Song_tbl (work c') = Song_tbl (work c) @ map fst xs \<and>
            SongGenre_tbl (work c') = SongGenre_tbl (work c) @ concat (map snd xs) \<and>
            list_all2 (loaded_from (work c')) data xs)"
proof -
  from assms obtain u1 c1 where l: "load_rows data c = Return u1 c1" and c': "c' = commit c1"
    by (cases "load_rows data c") (auto simp: populate_database_def)
  have "work c' = work c1" and "durable c' = work c'"
    by (simp_all add: c' commit_def)
  then show ?thesis using load_rows_Return [OF l] by simp
qed

section \<open>A run returns when no row repeats a genre\<close>

lemma conn_ok_Return:
  "conn_ok c \<Longrightarrow> get_or_create_id t v c = Return i c1 \<Longrightarrow> conn_ok c1"
  using conn_ok_get_or_create_id [of c t v] by simp

lemma get_or_create_id_Return_ex: "\<exists>i c1. get_or_create_id t v c = Return i c1"
  by (cases t v c rule: get_or_create_id_cases) blast+

lemma distinct_fst_same_snd:
  "distinct (map fst rows) \<Longrightarrow> (i, a) \<in> set rows \<Longrightarrow> (i, b) \<in> set rows \<Longrightarrow> a = b"
  by (induction rows) (auto simp: rev_image_eqI)

lemma link_genres_succeeds:
  assumes "conn_ok c" and "distinct gs" and "sid \<in> Song_id ` set (Song_tbl (work c))"
    and "\<forall>p \<in> set (SongGenre_tbl (work c)).
           fst p = sid \<longrightarrow> (\<exists>g. g \<notin> set gs \<and> (snd p, g) \<in> set (Genre_tbl (work c)))"
  shows "\<exists>c'. link_genres sid gs c = Return () c'"
  using assms
proof (induction gs arbitrary: c)
  case Nil
  then show ?case by simp
next
  case (Cons g gs)
  obtain gid c1 where g1: "get_or_create_id Genre g c = Return gid c1"
    using get_or_create_id_Return_ex by blast
  have ok1: "conn_ok c1" using Cons.prems(1) g1 by (rule conn_ok_Return)
  then have cons1: "consistent (work c1)" by (simp add: conn_ok_def)
  have sg1: "SongGenre_tbl (work c1) = SongGenre_tbl (work c)"
    using g1 by (rule get_or_create_id_SongGenre_tbl)
  have song1: "Song_tbl (work c1) = Song_tbl (work c)"
    using g1 by (rule get_or_create_id_Song_tbl)
  have pre: "prefix (Genre_tbl (work c)) (Genre_tbl (work c1))"
    using get_or_create_id_extends [OF g1] by (simp add: extends_def)
  have mem: "(gid, g) \<in> set (Genre_tbl (work c1))"
    using select_id_SomeD [OF get_or_create_id_resolves [OF g1]] by simp
  have ids: "distinct (map fst (Genre_tbl (work c1)))"
    using cons1 by (simp add: consistent_def)
  have new: "(sid, gid) \<notin> set (SongGenre_tbl (work c1))"
  proof
    assume "(sid, gid) \<in> set (SongGenre_tbl (work c1))"
    then obtain g' where "g' \<notin> set (g # gs)" and "(gid, g') \<in> set (Genre_tbl (work c))"
      using Cons.prems(4) sg1 by fastforce
    then have "(gid, g') \<in> set (Genre_tbl (work c1))"
      using pre by (auto simp: prefix_def)
    with ids have "g' = g" using mem by (rule distinct_fst_same_snd)
    with \<open>g' \<notin> set (g # gs)\<close> show False by simp
  qed
  let ?d = "(work c1)\<lparr>SongGenre_tbl := SongGenre_tbl (work c1) @ [(sid, gid)]\<rparr>"
  have ins: "insert_songgenre (sid, gid) (work c1) = Inr ?d"
    using new by (simp add: insert_songgenre_def)
  have sid1: "sid \<in> Song_id ` set (Song_tbl (work c1))"
    using Cons.prems(3) song1 by simp
  have "fst (gid, g) \<in> fst ` set (Genre_tbl (work c1))" using mem by (rule imageI)
  then have gid1: "gid \<in> fst ` set (Genre_tbl (work c1))" by simp
  have "consistent ?d"
    using cons1 ins sid1 gid1 by (rule consistent_insert_songgenre)
  then have ok2: "conn_ok (c1\<lparr>work := ?d\<rparr>)"
    using ok1 by (simp add: conn_ok_def)
  have inv2: "\<forall>p \<in> set (SongGenre_tbl (work (c1\<lparr>work := ?d\<rparr>))).
      fst p = sid \<longrightarrow> (\<exists>g. g \<notin> set gs \<and> (snd p, g) \<in> set (Genre_tbl (work (c1\<lparr>work := ?d\<rparr>))))"
  proof
    fix p assume p: "p \<in> set (SongGenre_tbl (work (c1\<lparr>work := ?d\<rparr>)))"
    show "fst p = sid \<longrightarrow> (\<exists>g. g \<notin> set gs \<and> (snd p, g) \<in> set (Genre_tbl (work (c1\<lparr>work := ?d\<rparr>))))"
    proof
      assume fp: "fst p = sid"
      from p have "p \<in> set (SongGenre_tbl (work c)) \<or> p = (sid, gid)"
        using sg1 by auto
      then show "\<exists>g. g \<notin> set gs \<and> (snd p, g) \<in> set (Genre_tbl (work (c1\<lparr>work := ?d\<rparr>)))"
      proof
        assume "p \<in> set (SongGenre_tbl (work c))"
        then obtain g' where "g' \<notin> set (g # gs)" and "(snd p, g') \<in> set (Genre_tbl (work c))"
          using Cons.prems(4) fp by blast
        then have "g' \<notin> set gs \<and> (snd p, g') \<in> set (Genre_tbl (work c1))"
          using pre by (auto simp: prefix_def)
        then show ?thesis by auto
      next
        assume "p = (sid, gid)"
        then have "g \<notin> set gs \<and> (snd p, g) \<in> set (Genre_tbl (work c1))"
          using Cons.prems(2) mem by simp
        then show ?thesis by auto
      qed
    qed
  qed
  have "distinct gs" using Cons.prems(2) by simp
  moreover have "sid \<in> Song_id ` set (Song_tbl (work (c1\<lparr>work := ?d\<rparr>)))"
    using sid1 by simp
  ultimately obtain c' where "link_genres sid gs (c1\<lparr>work := ?d\<rparr>) = Return () c'"
    using Cons.IH [OF ok2 _ _ inv2] by blast
  then show ?case using g1 ins by simp
qed

lemma load_row_succeeds:
  assumes "conn_ok c" and "distinct (split_comma_space (genre r))"
  shows "\<exists>c'. load_row r c = Return () c'"
proof -
  obtain aid c1 where a1: "get_or_create_id Artist (artist r) c = Return aid c1"
    using get_or_create_id_Return_ex by blast
  have ok1: "conn_ok c1" using assms(1) a1 by (rule conn_ok_Return)
  then have cons1: "consistent (work c1)" by (simp add: conn_ok_def)
  obtain sid d where ins: "insert_song r aid (work c1) = (sid, d)"
    by (cases "insert_song r aid (work c1)")
  note d = insert_song_eq [OF ins]
  have "(aid, artist r) \<in> set (Artist_tbl (work c1))"
    using select_id_SomeD [OF get_or_create_id_resolves [OF a1]] by simp
  then have "fst (aid, artist r) \<in> fst ` set (Artist_tbl (work c1))" by (rule imageI)
  then have "aid \<in> fst ` set (Artist_tbl (work c1))" by simp
  then have "consistent d"
    using consistent_insert_song [of "work c1" aid r] cons1 ins by simp
  then have ok2: "conn_ok (c1\<lparr>work := d\<rparr>)"
    using ok1 by (simp add: conn_ok_def)
  have sid2: "sid \<in> Song_id ` set (Song_tbl (work (c1\<lparr>work := d\<rparr>)))"
    using insert_song_id_stored [OF ins] by simp
  have fresh: "sid \<notin> Song_id ` set (Song_tbl (work c1))"
    using d next_rowid_fresh [of "Song_seq (work c1)" "map Song_id (Song_tbl (work c1))"]
    by simp
  have none: "\<forall>p \<in> set (SongGenre_tbl (work (c1\<lparr>work := d\<rparr>))). fst p = sid \<longrightarrow>
      (\<exists>g. g \<notin> set (split_comma_space (genre r)) \<and>
         (snd p, g) \<in> set (Genre_tbl (work (c1\<lparr>work := d\<rparr>))))"
  proof
    fix p assume "p \<in> set (SongGenre_tbl (work (c1\<lparr>work := d\<rparr>)))"
    then have "p \<in> set (SongGenre_tbl (work c1))" using d by simp
    then have "fst p \<in> Song_id ` set (Song_tbl (work c1))"
      using cons1 by (simp add: consistent_def)
    then have "fst p \<noteq> sid" using fresh by auto
    then show "fst p = sid \<longrightarrow> (\<exists>g. g \<notin> set (split_comma_space (genre r)) \<and>
         (snd p, g) \<in> set (Genre_tbl (work (c1\<lparr>work := d\<rparr>))))" by simp
  qed
  obtain c' where "link_genres sid (split_comma_space (genre r)) (c1\<lparr>work := d\<rparr>) = Return () c'"
    using link_genres_succeeds [OF ok2 assms(2) sid2 none] by blast
  then show ?thesis using a1 ins by (simp add: load_row_def)
qed

lemma load_rows_succeeds:
  assumes "conn_ok c" and "\<forall>r \<in> set data. distinct (split_comma_space (genre r))"
  shows "\<exists>c'. load_rows data c = Return () c'"
  using assms
proof (induction data arbitrary: c)
  case Nil
  then show ?case by simp
next
  case (Cons r rs)
  obtain c1 where r1: "load_row r c = Return () c1"
    using load_row_succeeds [OF Cons.prems(1), of r] Cons.prems(2) by auto
  have "conn_ok c1" using conn_ok_load_row [OF Cons.prems(1), of r] r1 by simp
  then obtain c' where "load_rows rs c1 = Return () c'"
    using Cons.IH Cons.prems(2) by auto
  then show ?case using r1 by simp
qed

lemma populate_database_succeeds:
  assumes "conn_ok c" and "\<forall>r \<in> set data. distinct (split_comma_space (genre r))"
  shows "\<exists>c'. populate_database data c = Return () c'"
proof -
  obtain c1 where "load_rows data c = Return () c1"
    using load_rows_succeeds [OF assms] by blast
  then show ?thesis by (simp add: populate_database_def)
qed

section \<open>Names stored and commits made\<close>

lemma get_or_create_id_names:
  "get_or_create_id t v c = Return i c1 \<Longrightarrow>
   snd ` set (table_of t (work c1)) = insert v (snd ` set (table_of t (work c)))"
proof (cases t v c rule: get_or_create_id_cases)
  case (hit j)
  assume "get_or_create_id t v c = Return i c1"
  with hit have "c1 = c" by simp
  moreover have "v \<in> snd ` set (table_of t (work c))"
    using hit(1) select_id_None_iff [of "table_of t (work c)" v] by auto
  ultimately show ?thesis by auto
next
  case (miss rid)
  assume "get_or_create_id t v c = Return i c1"
  with miss(3) have "c1 = commit (c\<lparr>work := store_row t (rid, v) (work c)\<rparr>)" by simp
  then show ?thesis by (simp add: commit_def table_of_store_row_same)
qed

lemma load_row_artist_names:
  assumes "load_row r c = Return u c'"
  shows "snd ` set (Artist_tbl (work c')) = insert (artist r) (snd ` set (Artist_tbl (work c)))"
proof -
  from assms obtain aid c1 where a1: "get_or_create_id Artist (artist r) c = Return aid c1"
    by (cases "get_or_create_id Artist (artist r) c") (simp_all add: load_row_def)
  obtain sid d where ins: "insert_song r aid (work c1) = (sid, d)"
    by (cases "insert_song r aid (work c1)")
  from assms a1 ins
  have rest: "link_genres sid (split_comma_space (genre r)) (c1\<lparr>work := d\<rparr>) = Return u c'"
    by (simp add: load_row_def)
  have "Artist_tbl (work c') = Artist_tbl d"
    using link_genres_Return [OF rest] by simp
  also have "\<dots> = Artist_tbl (work c1)"
    using insert_song_eq [OF ins] by simp
  finally show ?thesis using get_or_create_id_names [OF a1] by simp
qed

lemma load_rows_artist_names:
  "load_rows data c = Return u c' \<Longrightarrow>
   snd ` set (Artist_tbl (work c')) = snd ` set (Artist_tbl (work c)) \<union> artist ` set data"
proof (induction data arbitrary: c)
  case Nil
  then show ?case by simp
next
  case (Cons r rs)
  from Cons.prems obtain u1 c1 where r1: "load_row r c = Return u1 c1"
    and rest: "load_rows rs c1 = Return u c'"
    by (cases "load_row r c") simp_all
  show ?case
    using Cons.IH [OF rest] load_row_artist_names [OF r1] by auto
qed

text \<open>Commits and created rows go together.\<close>

lemma get_or_create_id_commits:
  "get_or_create_id t v c = Return i c1 \<Longrightarrow> commits c1 + created c = commits c + created c1"
  by (cases t v c rule: get_or_create_id_cases; cases t) (auto simp: commit_def created_def)

lemma link_genres_commits:
  "link_genres sid gs c = Return u c' \<Longrightarrow> commits c' + created c = commits c + created c'"
proof (induction gs arbitrary: c)
  case Nil
  then show ?case by simp
next
  case (Cons g gs)
  from Cons.prems obtain gid c1 where g1: "get_or_create_id Genre g c = Return gid c1"
    by (cases "get_or_create_id Genre g c") simp_all
  from Cons.prems g1 obtain d where ins: "insert_songgenre (sid, gid) (work c1) = Inr d"
    and rest: "link_genres sid gs (c1\<lparr>work := d\<rparr>) = Return u c'"
    by (cases "insert_songgenre (sid, gid) (work c1)") simp_all
  have "created (c1\<lparr>work := d\<rparr>) = created c1"
    using insert_songgenre_Inr [OF ins] by (simp add: created_def)
  then show ?case
    using Cons.IH [OF rest] get_or_create_id_commits [OF g1] by simp
qed

lemma load_row_commits:
  assumes "load_row r c = Return u c'"
  shows "commits c' + created c = commits c + created c'"
proof -
  from assms obtain aid c1 where a1: "get_or_create_id Artist (artist r) c = Return aid c1"
    by (cases "get_or_create_id Artist (artist r) c") (simp_all add: load_row_def)
  obtain sid d where ins: "insert_song r aid (work c1) = (sid, d)"
    by (cases "insert_song r aid (work c1)")
  from assms a1 ins
  have rest: "link_genres sid (split_comma_space (genre r)) (c1\<lparr>work := d\<rparr>) = Return u c'"
    by (simp add: load_row_def)
  have "created (c1\<lparr>work := d\<rparr>) = created c1"
    using insert_song_eq [OF ins] by (simp add: created_def)
  then show ?thesis
    using link_genres_commits [OF rest] get_or_create_id_commits [OF a1] by simp
qed

lemma load_rows_commits:
  "load_rows data c = Return u c' \<Longrightarrow> commits c' + created c = commits c + created c'"
proof (induction data arbitrary: c)
  case Nil
  then show ?case by simp
next
  case (Cons r rs)
  from Cons.prems obtain u1 c1 where r1: "load_row r c = Return u1 c1"
    and rest: "load_rows rs c1 = Return u c'"
    by (cases "load_row r c") simp_all
  show ?case
    using Cons.IH [OF rest] load_row_commits [OF r1] by simp
qed

lemma consistent_spec_invariants:
  assumes "consistent d"
  shows "spec_invariants d"
proof -
  have ids: "distinct (map fst (Artist_tbl d))" using assms by (simp add: consistent_def)
  have one: "length (filter (\<lambda>a. fst a = i) rows) = 1"
    if "distinct (map fst rows)" and "i \<in> fst ` set rows" for i and rows :: "name_row list"
    using that by (induction rows) (auto simp: filter_empty_conv rev_image_eqI)
  have "\<forall>s \<in> set (Song_tbl d). length (filter (\<lambda>a. fst a = Song_artist_id s) (Artist_tbl d)) = 1"
    using assms one [OF ids] by (simp add: consistent_def)
  moreover have "\<forall>p \<in> set (SongGenre_tbl d).
        (\<exists>s \<in> set (Song_tbl d). Song_id s = fst p) \<and> (\<exists>g \<in> set (Genre_tbl d). fst g = snd p)"
  proof
    fix p assume "p \<in> set (SongGenre_tbl d)"
    then have "fst p \<in> Song_id ` set (Song_tbl d)" and "snd p \<in> fst ` set (Genre_tbl d)"
      using assms by (simp_all add: consistent_def)
    then show "(\<exists>s \<in> set (Song_tbl d). Song_id s = fst p) \<and> (\<exists>g \<in> set (Genre_tbl d). fst g = snd p)"
      by (force simp: image_iff)
  qed
  ultimately show ?thesis using assms by (simp add: spec_invariants_def consistent_def)
qed

section \<open>The main program of the loader and its preprocessing\<close>

lemma consistent_empty_db: "consistent empty_db"
  by (simp add: consistent_def empty_db_def)

lemma conn_ok_connect: "consistent d \<Longrightarrow> conn_ok (connect d)"
  by (simp add: conn_ok_def connect_def)

lemma conn_ok_create_tables: "conn_ok c \<Longrightarrow> conn_ok (create_tables c)"
  by (simp add: create_tables_def conn_ok_commit)

lemma snd_main: "snd (main csv file) =
    durable (conn_of (populate_database (load_and_preprocess_data csv) (create_tables (connect file))))"
  by (cases "populate_database (load_and_preprocess_data csv) (create_tables (connect file))")
     (simp_all add: main_def close_connection_def)

lemma work_create_tables_connect: "work (create_tables (connect file)) = file"
  by (simp add: create_tables_def commit_def connect_def)

lemma load_and_preprocess_data_append:
  "load_and_preprocess_data (xs @ ys) = load_and_preprocess_data xs @ load_and_preprocess_data ys"
  by (simp add: load_and_preprocess_data_def)

lemma load_and_preprocess_data_Cons:
  "load_and_preprocess_data (x # xs) = load_and_preprocess_data [x] @ load_and_preprocess_data xs"
  using load_and_preprocess_data_append [of "[x]" xs] by simp

lemma keep_row_converted: "keep_row (convert_duration (rename_duration r)) = keep_row r"
  by (simp add: keep_row_def convert_duration_def rename_duration_def)

lemma load_and_preprocess_data_filter:
  "load_and_preprocess_data csv = map preprocess_row (filter keep_row csv)"
  by (induction csv)
     (simp_all add: load_and_preprocess_data_def keep_row_converted preprocess_row_def)



lemma main_None:
  assumes "main csv file = (None, d)"
  shows "\<exists>c'. populate_database (load_and_preprocess_data csv) (create_tables (connect file)) =
           Return () c' \<and> work c' = d \<and> durable c' = d"
proof (cases "populate_database (load_and_preprocess_data csv) (create_tables (connect file))")
  case (Raise e c1)
  with assms show ?thesis by (simp add: main_def)
next
  case (Return u c1)
  with assms have "durable c1 = d" by (simp add: main_def close_connection_def)
  moreover have "durable c1 = work c1"
    using populate_database_Return [OF Return] by simp
  ultimately show ?thesis using Return by simp
qed

lemma main_None_loaded:
  assumes "main csv file = (None, d)"
  shows "\<exists>xs. Song_tbl d = Song_tbl file @ map fst xs \<and>
           SongGenre_tbl d = SongGenre_tbl file @ concat (map snd xs) \<and>
           list_all2 (loaded_from d) (map preprocess_row (filter keep_row csv)) xs"
proof -
  from main_None [OF assms] obtain c' where
    p: "populate_database (load_and_preprocess_data csv) (create_tables (connect file)) = Return () c'"
    and d: "work c' = d" by blast
  show ?thesis
    using populate_database_Return [OF p]
    by (simp add: d work_create_tables_connect load_and_preprocess_data_filter)
qed




section \<open>Rounding on integers\<close>


section \<open>Splitting the genre field\<close>

lemma split_from_not_Nil: "split_from acc s \<noteq> []"
  by (induction acc s rule: split_from.induct) auto

lemma join_comma_space_Cons:
  "ts \<noteq> [] \<Longrightarrow> join_comma_space (t # ts) = t @ '', '' @ join_comma_space ts"
  by (cases ts) simp_all

lemma join_split_from: "join_comma_space (split_from acc s) = rev acc @ s"
proof (induction acc s rule: split_from.induct)
  case (1 acc)
  then show ?case by simp
next
  case (2 acc c)
  then show ?case by simp
next
  case (3 acc c d cs)
  show ?case
  proof (cases "c = CHR '','' \<and> d = CHR '' ''")
    case True
    then show ?thesis
      using "3.IH"(1) by (simp add: join_comma_space_Cons split_from_not_Nil)
  next
    case False
    then show ?thesis
      using "3.IH"(2) by auto
  qed
qed



lemma split_pop_rock: "split_comma_space ''pop, rock'' = [''pop'', ''rock'']"
  by (simp add: split_comma_space_def)

lemma sep_snoc:
  "sublist '', '' (t @ [c]) \<longleftrightarrow> sublist '', '' t \<or> (t \<noteq> [] \<and> last t = CHR '','' \<and> c = CHR '' '')"
proof
  assume "sublist '', '' (t @ [c])"
  then obtain ps ss where eq: "t @ [c] = ps @ '', '' @ ss" by (auto simp: sublist_def)
  show "sublist '', '' t \<or> (t \<noteq> [] \<and> last t = CHR '','' \<and> c = CHR '' '')"
  proof (cases ss rule: rev_cases)
    case Nil
    with eq have "t = ps @ '','' \<and> c = CHR '' ''" by simp
    then show ?thesis by auto
  next
    case (snoc ss' x)
    with eq have "t = ps @ '', '' @ ss'" by simp
    then show ?thesis by (auto simp: sublist_def)
  qed
next
  assume "sublist '', '' t \<or> (t \<noteq> [] \<and> last t = CHR '','' \<and> c = CHR '' '')"
  then show "sublist '', '' (t @ [c])"
  proof
    assume "sublist '', '' t"
    then show ?thesis by (simp add: sublist_append)
  next
    assume a: "t \<noteq> [] \<and> last t = CHR '','' \<and> c = CHR '' ''"
    then have "t = butlast t @ '',''" by (metis append_butlast_last_id)
    then have "t @ [c] = butlast t @ '', '' @ []" using a by simp
    then show ?thesis unfolding sublist_def by blast
  qed
qed

lemma split_from_no_sep:
  assumes "\<not> sublist '', '' (rev acc)"
    and "\<not> (acc \<noteq> [] \<and> hd acc = CHR '','' \<and> s \<noteq> [] \<and> hd s = CHR '' '')"
  shows "\<forall>t \<in> set (split_from acc s). \<not> sublist '', '' t"
  using assms
proof (induction acc s rule: split_from.induct)
  case (1 acc)
  then show ?case by simp
next
  case (2 acc c)
  then show ?case by (auto simp: sep_snoc last_rev)
next
  case (3 acc c d cs)
  show ?case
  proof (cases "c = CHR '','' \<and> d = CHR '' ''")
    case True
    have "\<forall>t \<in> set (split_from [] cs). \<not> sublist '', '' t"
      using True by (intro "3.IH"(1)) simp_all
    then show ?thesis using True "3.prems"(1) by simp
  next
    case False
    have "\<not> sublist '', '' (rev (c # acc))"
      using "3.prems" by (auto simp: sep_snoc last_rev)
    moreover have "\<not> (c # acc \<noteq> [] \<and> hd (c # acc) = CHR '','' \<and> d # cs \<noteq> [] \<and> hd (d # cs) = CHR '' '')"
      using False by simp
    ultimately have "\<forall>t \<in> set (split_from (c # acc) (d # cs)). \<not> sublist '', '' t"
      using False by (intro "3.IH"(2)) simp_all
    then show ?thesis using False by auto
  qed
qed

lemma split_comma_space_no_sep: "t \<in> set (split_comma_space s) \<Longrightarrow> \<not> sublist '', '' t"
  using split_from_no_sep [of "[]" s] by (simp add: split_comma_space_def)

section \<open>The canonical form of a name\<close>



lemma of_char_space: "(of_char (CHR '' '') :: nat) = 32"
  by simp

lemma of_char_underscore: "(of_char (CHR ''_'') :: nat) = 95"
  by simp





lemma standardize_Foo_Bar: "standardize ''Foo Bar'' = ''foo_bar''"
  by code_simp




section \<open>The specification's example, evaluated\<close>

lemma spec_row_loaded:
  "load_and_preprocess_data [spec_row] =
     [\<lparr>song = ''X'', artist = ''foo_bar'', genre = ''pop, rock'', popularity = 70,
       speechiness = 0.5, danceability = 0.5, explicit = False, year = 2005,
       duration = 200\<rparr>]"
  by (simp add: load_and_preprocess_data_def spec_row_def rename_duration_def
      convert_duration_def to_seconds_def round_half_even_def keep_row_def lit_0_33_def lit_0_66_def lit_0_20_def
      standardize_artist_def standardize_Foo_Bar)

lemma spec_row_load_rows:
  "load_rows (load_and_preprocess_data [spec_row]) (connect empty_db) =
     Return ()
      \<lparr>work = \<lparr>Genre_tbl = [(1, ''pop''), (2, ''rock'')], Artist_tbl = [(1, ''foo_bar'')],
          Song_tbl = [\<lparr>Song_id = 1, Song_song_name = ''X'', Song_duration = 200,
            Song_explicit = 0, Song_year = 2005, Song_popularity = 70,
            Song_danceability = 0.5, Song_speechiness = 0.5, Song_artist_id = 1\<rparr>],
          SongGenre_tbl = [(1, 1), (1, 2)], Genre_seq = 2, Artist_seq = 1, Song_seq = 1\<rparr>,
        durable = \<lparr>Genre_tbl = [(1, ''pop''), (2, ''rock'')], Artist_tbl = [(1, ''foo_bar'')],
          Song_tbl = [\<lparr>Song_id = 1, Song_song_name = ''X'', Song_duration = 200,
            Song_explicit = 0, Song_year = 2005, Song_popularity = 70,
            Song_danceability = 0.5, Song_speechiness = 0.5, Song_artist_id = 1\<rparr>],
          SongGenre_tbl = [(1, 1)], Genre_seq = 2, Artist_seq = 1, Song_seq = 1\<rparr>,
        commits = 3\<rparr>"
  unfolding spec_row_loaded
  by (simp add: load_row_def get_or_create_id_def select_id_def insert_name_def
      next_rowid_def insert_song_def song_values_def insert_songgenre_def
      split_comma_space_def connect_def empty_db_def commit_def Let_def)

lemma spec_row_populate:
  "populate_database (load_and_preprocess_data [spec_row]) (connect empty_db) =
     Return ()
      \<lparr>work = \<lparr>Genre_tbl = [(1, ''pop''), (2, ''rock'')], Artist_tbl = [(1, ''foo_bar'')],
          Song_tbl = [\<lparr>Song_id = 1, Song_song_name = ''X'', Song_duration = 200,
            Song_explicit = 0, Song_year = 2005, Song_popularity = 70,
            Song_danceability = 0.5, Song_speechiness = 0.5, Song_artist_id = 1\<rparr>],
          SongGenre_tbl = [(1, 1), (1, 2)], Genre_seq = 2, Artist_seq = 1, Song_seq = 1\<rparr>,
        durable = \<lparr>Genre_tbl = [(1, ''pop''), (2, ''rock'')], Artist_tbl = [(1, ''foo_bar'')],
          Song_tbl = [\<lparr>Song_id = 1, Song_song_name = ''X'', Song_duration = 200,
            Song_explicit = 0, Song_year = 2005, Song_popularity = 70,
            Song_danceability = 0.5, Song_speechiness = 0.5, Song_artist_id = 1\<rparr>],
          SongGenre_tbl = [(1, 1), (1, 2)], Genre_seq = 2, Artist_seq = 1, Song_seq = 1\<rparr>,
        commits = 4\<rparr>"
  by (simp add: populate_database_def spec_row_load_rows commit_def)

lemma spec_row_main: "main [spec_row] empty_db = (None, spec_db)"
  unfolding main_def spec_row_loaded
  by (simp add: populate_database_def load_row_def get_or_create_id_def select_id_def
      insert_name_def next_rowid_def insert_song_def song_values_def insert_songgenre_def
      split_comma_space_def connect_def create_tables_def empty_db_def commit_def Let_def
      close_connection_def spec_db_def)

lemma keep_row_spec_row: "keep_row spec_row"
  by (simp add: keep_row_def spec_row_def lit_0_33_def lit_0_66_def lit_0_20_def)




section \<open>Resolving a key twice\<close>

text \<open>
  Claim C1. For either table and every key \<open>k\<close>, on a table whose names are distinct (the
  column is \<^verbatim>\<open>UNIQUE\<close>), \<^verbatim>\<open>get_or_create_id\<close> returns, a second call with the same key
  returns the same identifier and leaves the connection exactly as the first call left
  it, and the table then holds exactly one row with the key \<open>k\<close>, the one with the
  identifier returned.
\<close>

theorem get_or_create_id_twice:
  assumes "distinct (map snd (table_of t (work c)))"
  shows "\<exists>i c1. get_or_create_id t k c = Return i c1 \<and>
           get_or_create_id t k c1 = Return i c1 \<and>
           (i, k) \<in> set (table_of t (work c1)) \<and>
           length (filter (\<lambda>r. snd r = k) (table_of t (work c1))) = 1"
proof (cases "select_id (table_of t (work c)) k")
  case None
  let ?rid = "next_rowid (seq_of t (work c)) (map fst (table_of t (work c)))"
  let ?c1 = "commit (c\<lparr>work := store_row t (?rid, k) (work c)\<rparr>)"
  have first: "get_or_create_id t k c = Return ?rid ?c1"
    using None by (rule get_or_create_id_miss)
  have tbl: "table_of t (work ?c1) = table_of t (work c) @ [(?rid, k)]"
    by (simp add: commit_def table_of_store_row_same)
  have "select_id (table_of t (work ?c1)) k = Some ?rid"
    unfolding tbl using None by (rule select_id_snoc_new)
  then have second: "get_or_create_id t k ?c1 = Return ?rid ?c1"
    by (rule get_or_create_id_hit)
  have "k \<notin> snd ` set (table_of t (work c))"
    using None by (simp add: select_id_None_iff)
  then have "length (filter (\<lambda>r. snd r = k) (table_of t (work ?c1))) = 1"
    unfolding tbl by (rule count_key_snoc)
  moreover have "(?rid, k) \<in> set (table_of t (work ?c1))"
    unfolding tbl by simp
  ultimately show ?thesis using first second by blast
next
  case (Some i)
  then have "get_or_create_id t k c = Return i c"
    by (rule get_or_create_id_hit)
  moreover have "(i, k) \<in> set (table_of t (work c))"
    using Some by (rule select_id_SomeD)
  moreover from this have "length (filter (\<lambda>r. snd r = k) (table_of t (work c))) = 1"
    using assms by (intro count_key_distinct)
  ultimately show ?thesis by blast
qed

theorem get_or_create_id_twice_witness:
  "distinct (map snd (table_of Genre (work (connect empty_db)))) \<and>
   (\<exists>i c1. get_or_create_id Genre ''pop'' (connect empty_db) = Return i c1 \<and>
      get_or_create_id Genre ''pop'' c1 = Return i c1 \<and>
      (i, ''pop'') \<in> set (table_of Genre (work c1)) \<and>
      length (filter (\<lambda>r. snd r = ''pop'') (table_of Genre (work c1))) = 1)"
  using get_or_create_id_twice [of Genre "connect empty_db" "''pop''"]
  by (simp add: connect_def empty_db_def)

section \<open>When the loader commits\<close>

text \<open>
  Claim C2, as stated: no insertion is durable before the end of a run, and the run
  commits once. On the row of the specification's example the loop has committed three
  times when it ends, the file then holds the \<^verbatim>\<open>Song\<close> row, and the run makes four
  commits.
\<close>

theorem populate_database_single_commit_counterexample:
  "commits (conn_of (load_rows (load_and_preprocess_data [spec_row]) (connect empty_db))) = 3 \<and>
   map Song_id (Song_tbl (durable (conn_of
     (load_rows (load_and_preprocess_data [spec_row]) (connect empty_db))))) = [1] \<and>
   commits (conn_of
     (populate_database (load_and_preprocess_data [spec_row]) (connect empty_db))) = 4"
  by (simp add: spec_row_load_rows spec_row_populate)

text \<open>
  Claim C2, amended. \<^verbatim>\<open>get_or_create_id\<close> commits as soon as it has inserted a new
  \<^verbatim>\<open>Artist\<close> or \<^verbatim>\<open>Genre\<close> row, which makes durable everything inserted so far, and
  \<^verbatim>\<open>populate_database\<close> commits once more at the end: a run that returns has made one
  commit for each \<^verbatim>\<open>Artist\<close> or \<^verbatim>\<open>Genre\<close> row it created and one more, and after it every
  insertion is durable.
\<close>

theorem populate_database_commits:
  "(populate_database data c = Return u c' \<longrightarrow>
      durable c' = work c' \<and> commits c' + created c = Suc (commits c + created c')) \<and>
   (select_id (table_of t (work c)) v = None \<longrightarrow>
      (\<exists>i c1. get_or_create_id t v c = Return i c1 \<and> durable c1 = work c1 \<and>
         commits c1 = Suc (commits c)))"
proof (intro conjI impI)
  assume p: "populate_database data c = Return u c'"
  then obtain u1 c1 where l: "load_rows data c = Return u1 c1" and c': "c' = commit c1"
    by (cases "load_rows data c") (auto simp: populate_database_def)
  show "durable c' = work c'" by (simp add: c' commit_def)
  have "created c' = created c1" and "commits c' = Suc (commits c1)"
    by (simp_all add: c' commit_def created_def)
  then show "commits c' + created c = Suc (commits c + created c')"
    using load_rows_commits [OF l] by simp
next
  assume "select_id (table_of t (work c)) v = None"
  from get_or_create_id_miss [OF this]
  show "\<exists>i c1. get_or_create_id t v c = Return i c1 \<and> durable c1 = work c1 \<and>
         commits c1 = Suc (commits c)"
    by (simp add: commit_def)
qed

theorem populate_database_commits_witness:
  "populate_database (load_and_preprocess_data [spec_row]) (connect empty_db) =
     Return () (conn_of (populate_database (load_and_preprocess_data [spec_row])
       (connect empty_db))) \<and>
   durable (conn_of (populate_database (load_and_preprocess_data [spec_row])
       (connect empty_db))) =
     work (conn_of (populate_database (load_and_preprocess_data [spec_row])
       (connect empty_db))) \<and>
   commits (conn_of (populate_database (load_and_preprocess_data [spec_row])
       (connect empty_db))) = 4 \<and>
   created (conn_of (populate_database (load_and_preprocess_data [spec_row])
       (connect empty_db))) = 3 \<and>
   select_id (table_of Genre (work (connect empty_db))) ''pop'' = None \<and>
   (\<exists>i c1. get_or_create_id Genre ''pop'' (connect empty_db) = Return i c1 \<and>
      durable c1 = work c1 \<and> commits c1 = Suc (commits (connect empty_db)))"
  using populate_database_commits [of "load_and_preprocess_data [spec_row]" "connect empty_db"
      "()" "conn_of (populate_database (load_and_preprocess_data [spec_row]) (connect empty_db))"
      Genre "''pop''"]
  unfolding spec_row_populate
  by (simp add: created_def connect_def empty_db_def select_id_def)

section \<open>The invariants of the specification\<close>

text \<open>
  Claim C3. From a database file that satisfies the constraints of the schema (a new
  file does), every state a run of the loader produces satisfies the invariants of the
  specification: what the file holds after \<^verbatim>\<open>main\<close>, whether the run returned or raised,
  and, for \<^verbatim>\<open>populate_database\<close> on any connection, both what the connection sees and
  what is durable. Loading two rows with the same artist name into a new database gives
  one \<^verbatim>\<open>Artist\<close> row and two \<^verbatim>\<open>Song\<close> rows.
\<close>

theorem load_run_invariants:
  "(consistent file \<longrightarrow> spec_invariants (snd (main csv file))) \<and>
   spec_invariants (snd (main csv empty_db)) \<and>
   (conn_ok c \<longrightarrow>
      spec_invariants (work (conn_of (populate_database data c))) \<and>
      spec_invariants (durable (conn_of (populate_database data c)))) \<and>
   (artist ra = artist rb \<and>
    populate_database [ra, rb] (create_tables (connect empty_db)) = Return u c' \<longrightarrow>
      length (Artist_tbl (work c')) = 1 \<and> length (Song_tbl (work c')) = 2)"
proof (intro conjI impI)
  have main_ok: "spec_invariants (snd (main csv f))" if "consistent f" for f
  proof -
    have "conn_ok (create_tables (connect f))"
      using that by (simp add: conn_ok_connect conn_ok_create_tables)
    then have "conn_ok (conn_of (populate_database (load_and_preprocess_data csv)
        (create_tables (connect f))))"
      by (rule conn_ok_populate_database)
    then show ?thesis
      by (simp add: snd_main conn_ok_def consistent_spec_invariants)
  qed
  show "spec_invariants (snd (main csv file))" if "consistent file"
    using that by (rule main_ok)
  show "spec_invariants (snd (main csv empty_db))"
    using consistent_empty_db by (rule main_ok)
next
  assume "conn_ok c"
  then have ok: "conn_ok (conn_of (populate_database data c))"
    by (rule conn_ok_populate_database)
  then show "spec_invariants (work (conn_of (populate_database data c)))"
    by (simp add: conn_ok_def consistent_spec_invariants)
  from ok show "spec_invariants (durable (conn_of (populate_database data c)))"
    by (simp add: conn_ok_def consistent_spec_invariants)
next
  let ?c = "create_tables (connect empty_db)"
  assume a: "artist ra = artist rb \<and> populate_database [ra, rb] ?c = Return u c'"
  then have p: "populate_database [ra, rb] ?c = Return u c'" by simp
  have start: "Song_tbl (work ?c) = []" "Artist_tbl (work ?c) = []"
    by (simp_all add: create_tables_def commit_def connect_def empty_db_def)
  from populate_database_Return [OF p] obtain xs where
    "Song_tbl (work c') = Song_tbl (work ?c) @ map fst xs"
    and "list_all2 (loaded_from (work c')) [ra, rb] xs"
    by blast
  then show "length (Song_tbl (work c')) = 2"
    using start by (auto dest: list_all2_lengthD)
  from p obtain u1 c1 where l: "load_rows [ra, rb] ?c = Return u1 c1" and c': "c' = commit c1"
    by (cases "load_rows [ra, rb] ?c") (auto simp: populate_database_def)
  have names: "snd ` set (Artist_tbl (work c')) = {artist ra}"
    using load_rows_artist_names [OF l] a start by (simp add: c' commit_def)
  have "conn_ok ?c"
    by (simp add: conn_ok_connect conn_ok_create_tables consistent_empty_db)
  then have "conn_ok (conn_of (populate_database [ra, rb] ?c))"
    by (rule conn_ok_populate_database)
  then have "distinct (map snd (Artist_tbl (work c')))"
    using p by (simp add: conn_ok_def consistent_def)
  then have "card (set (map snd (Artist_tbl (work c')))) = length (map snd (Artist_tbl (work c')))"
    by (rule distinct_card)
  then show "length (Artist_tbl (work c')) = 1"
    using names by simp
qed

theorem load_run_invariants_witness:
  "consistent empty_db \<and> spec_invariants (snd (main [spec_row, spec_row] empty_db)) \<and>
   conn_ok (connect empty_db) \<and>
   spec_invariants (work (conn_of (populate_database (load_and_preprocess_data [spec_row])
     (connect empty_db)))) \<and>
   artist (hd (load_and_preprocess_data [spec_row])) = ''foo_bar'' \<and>
   (\<exists>c'. populate_database (load_and_preprocess_data [spec_row, spec_row])
      (create_tables (connect empty_db)) = Return () c' \<and>
      length (Artist_tbl (work c')) = 1 \<and> length (Song_tbl (work c')) = 2)"
proof -
  let ?r = "hd (load_and_preprocess_data [spec_row])"
  let ?c = "create_tables (connect empty_db)"
  have two: "load_and_preprocess_data [spec_row, spec_row] = [?r, ?r]"
    by (subst load_and_preprocess_data_Cons) (simp add: spec_row_loaded)
  have ok: "conn_ok ?c"
    by (simp add: conn_ok_connect conn_ok_create_tables consistent_empty_db)
  have "\<forall>r \<in> set [?r, ?r]. distinct (split_comma_space (genre r))"
    by (simp add: spec_row_loaded split_comma_space_def)
  from populate_database_succeeds [OF ok this] obtain c'
    where p: "populate_database [?r, ?r] ?c = Return () c'" by blast
  note inst = load_run_invariants [of empty_db "[spec_row, spec_row]" "connect empty_db"
      "load_and_preprocess_data [spec_row]" "?r" "?r" "()" c']
  have "length (Artist_tbl (work c')) = 1 \<and> length (Song_tbl (work c')) = 2"
    using inst p by simp
  then have "\<exists>c'. populate_database (load_and_preprocess_data [spec_row, spec_row]) ?c = Return () c' \<and>
      length (Artist_tbl (work c')) = 1 \<and> length (Song_tbl (work c')) = 2"
    using p two by auto
  moreover have "artist ?r = ''foo_bar''" by (simp add: spec_row_loaded)
  ultimately show ?thesis
    using inst consistent_empty_db conn_ok_connect [OF consistent_empty_db] by simp
qed

section \<open>The filter and the number of songs\<close>

text \<open>
  Claim C4. A row is kept exactly when its popularity is above 50, its speechiness is
  between 0.33 and 0.66, both included, and its danceability is above 0.20: popularity 50
  and danceability 0.20 are excluded, speechiness 0.33 and 0.66 are included. The three
  bounds are the \<^verbatim>\<open>float64\<close> literals of the code, each within half a unit in the last
  place of its decimal. The rows \<^verbatim>\<open>load_and_preprocess_data\<close> delivers are the kept rows
  of the input, in order, and a run of \<^verbatim>\<open>main\<close> that returns has added as many
  \<^verbatim>\<open>Song\<close> rows as the input has kept rows.
\<close>

theorem keep_row_song_count:
  "(keep_row r \<longleftrightarrow>
      50 < popularity r \<and> lit_0_33 \<le> speechiness r \<and> speechiness r \<le> lit_0_66 \<and>
      lit_0_20 < danceability r) \<and>
   \<not> keep_row (r\<lparr>popularity := 50\<rparr>) \<and>
   keep_row (r\<lparr>speechiness := lit_0_33\<rparr>) =
     (50 < popularity r \<and> lit_0_20 < danceability r) \<and>
   keep_row (r\<lparr>speechiness := lit_0_66\<rparr>) =
     (50 < popularity r \<and> lit_0_20 < danceability r) \<and>
   \<not> keep_row (r\<lparr>danceability := lit_0_20\<rparr>) \<and>
   \<bar>lit_0_33 - 0.33\<bar> \<le> 1 / 2 ^ 55 \<and> \<bar>lit_0_66 - 0.66\<bar> \<le> 1 / 2 ^ 54 \<and>
   \<bar>lit_0_20 - 0.20\<bar> \<le> 1 / 2 ^ 56 \<and>
   load_and_preprocess_data csv =
     map (\<lambda>r. standardize_artist (convert_duration (rename_duration r))) (filter keep_row csv) \<and>
   (main csv file = (None, d) \<longrightarrow>
      length (Song_tbl d) = length (Song_tbl file) + length (filter keep_row csv))"
proof (intro conjI impI)
  show "load_and_preprocess_data csv =
     map (\<lambda>r. standardize_artist (convert_duration (rename_duration r))) (filter keep_row csv)"
    using load_and_preprocess_data_filter [of csv] by (simp add: preprocess_row_def [abs_def])
next
  assume "main csv file = (None, d)"
  from main_None_loaded [OF this] obtain xs where
    "Song_tbl d = Song_tbl file @ map fst xs"
    and "list_all2 (loaded_from d) (map preprocess_row (filter keep_row csv)) xs"
    by blast
  then show "length (Song_tbl d) = length (Song_tbl file) + length (filter keep_row csv)"
    by (auto dest: list_all2_lengthD)
qed (simp_all add: keep_row_def lit_0_33_def lit_0_66_def lit_0_20_def)

theorem keep_row_song_count_witness:
  "keep_row spec_row \<and> main [spec_row] empty_db = (None, spec_db) \<and>
   length (Song_tbl spec_db) = length (Song_tbl empty_db) + length (filter keep_row [spec_row]) \<and>
   length (Song_tbl spec_db) = 1"
  using keep_row_song_count [of spec_row "[spec_row]" empty_db spec_db]
  by (simp add: spec_row_main keep_row_spec_row spec_db_def)

section \<open>Milliseconds to seconds\<close>



section \<open>One pair per genre token\<close>

text \<open>
  Claim C6. A run returns when no row repeats a genre token (the input the specification
  describes; a repeated token violates the primary key of \<^verbatim>\<open>SongGenre\<close>). For every row
  of a run that returns, the loader splits the genre field on \<^verbatim>\<open>", "\<close> (joining the
  tokens with \<^verbatim>\<open>", "\<close> gives the field back, and no token contains \<^verbatim>\<open>", "\<close>) and
  appends to \<^verbatim>\<open>SongGenre\<close>, row by row and token by token, exactly one pair per token:
  the id of the \<^verbatim>\<open>Song\<close> row just inserted for the row and the id that the token selects
  in \<^verbatim>\<open>Genre\<close>. The field \<^verbatim>\<open>"pop, rock"\<close> has the two tokens \<^verbatim>\<open>pop\<close> and \<^verbatim>\<open>rock\<close>.
\<close>

theorem populate_database_songgenre:
  "(conn_ok c \<and> (\<forall>r \<in> set data. distinct (split_comma_space (genre r))) \<longrightarrow>
      (\<exists>c1. populate_database data c = Return () c1)) \<and>
   (populate_database data c = Return u c' \<longrightarrow>
      (\<exists>xs. Song_tbl (work c') = Song_tbl (work c) @ map fst xs \<and>
         SongGenre_tbl (work c') = SongGenre_tbl (work c) @ concat (map snd xs) \<and>
         list_all2
           (\<lambda>r x. list_all2
              (\<lambda>g p. fst p = Song_id (fst x) \<and>
                 select_id (Genre_tbl (work c')) g = Some (snd p))
              (split_comma_space (genre r)) (snd x))
           data xs)) \<and>
   join_comma_space (split_comma_space s) = s \<and>
   (t \<in> set (split_comma_space s) \<longrightarrow> \<not> sublist '', '' t) \<and>
   split_comma_space ''pop, rock'' = [''pop'', ''rock'']"
proof (intro conjI impI)
  assume "conn_ok c \<and> (\<forall>r \<in> set data. distinct (split_comma_space (genre r)))"
  then show "\<exists>c1. populate_database data c = Return () c1"
    using populate_database_succeeds [of c data] by blast
next
  assume "populate_database data c = Return u c'"
  from populate_database_Return [OF this] obtain xs where
    song: "Song_tbl (work c') = Song_tbl (work c) @ map fst xs"
    and sg: "SongGenre_tbl (work c') = SongGenre_tbl (work c) @ concat (map snd xs)"
    and all: "list_all2 (loaded_from (work c')) data xs"
    by blast
  have "list_all2
      (\<lambda>r x. list_all2
         (\<lambda>g p. fst p = Song_id (fst x) \<and> select_id (Genre_tbl (work c')) g = Some (snd p))
         (split_comma_space (genre r)) (snd x))
      data xs"
    using all by (rule list_all2_mono) (simp add: loaded_from_def)
  with song sg show "\<exists>xs. Song_tbl (work c') = Song_tbl (work c) @ map fst xs \<and>
         SongGenre_tbl (work c') = SongGenre_tbl (work c) @ concat (map snd xs) \<and>
         list_all2
           (\<lambda>r x. list_all2
              (\<lambda>g p. fst p = Song_id (fst x) \<and>
                 select_id (Genre_tbl (work c')) g = Some (snd p))
              (split_comma_space (genre r)) (snd x))
           data xs"
    by blast
next
  show "join_comma_space (split_comma_space s) = s"
    by (simp add: split_comma_space_def join_split_from)
  show "\<not> sublist '', '' t" if "t \<in> set (split_comma_space s)"
    using that by (rule split_comma_space_no_sep)
  show "split_comma_space ''pop, rock'' = [''pop'', ''rock'']"
    by (rule split_pop_rock)
qed

theorem populate_database_songgenre_witness:
  "conn_ok (connect empty_db) \<and> distinct (split_comma_space ''pop, rock'') \<and>
   populate_database (load_and_preprocess_data [spec_row]) (connect empty_db) =
     Return () \<lparr>work = spec_db, durable = spec_db, commits = 4\<rparr> \<and>
   (\<exists>xs. Song_tbl spec_db = Song_tbl empty_db @ map fst xs \<and>
      SongGenre_tbl spec_db = SongGenre_tbl empty_db @ concat (map snd xs) \<and>
      list_all2
        (\<lambda>r x. list_all2
           (\<lambda>g p. fst p = Song_id (fst x) \<and> select_id (Genre_tbl spec_db) g = Some (snd p))
           (split_comma_space (genre r)) (snd x))
        (load_and_preprocess_data [spec_row]) xs) \<and>
   SongGenre_tbl spec_db = [(1, 1), (1, 2)] \<and>
   Genre_tbl spec_db = [(1, ''pop''), (2, ''rock'')] \<and>
   map genre (load_and_preprocess_data [spec_row]) = [''pop, rock'']"
proof -
  have ret: "populate_database (load_and_preprocess_data [spec_row]) (connect empty_db) =
      Return () \<lparr>work = spec_db, durable = spec_db, commits = 4\<rparr>"
    by (simp add: spec_row_populate spec_db_def)
  have "\<exists>xs. Song_tbl spec_db = Song_tbl empty_db @ map fst xs \<and>
      SongGenre_tbl spec_db = SongGenre_tbl empty_db @ concat (map snd xs) \<and>
      list_all2
        (\<lambda>r x. list_all2
           (\<lambda>g p. fst p = Song_id (fst x) \<and> select_id (Genre_tbl spec_db) g = Some (snd p))
           (split_comma_space (genre r)) (snd x))
        (load_and_preprocess_data [spec_row]) xs"
    using populate_database_songgenre [of "connect empty_db"
        "load_and_preprocess_data [spec_row]" "()"
        "\<lparr>work = spec_db, durable = spec_db, commits = 4\<rparr>"] ret
    by (simp add: connect_def)
  moreover have "conn_ok (connect empty_db)"
    using consistent_empty_db by (rule conn_ok_connect)
  moreover have "distinct (split_comma_space ''pop, rock'')"
    by (simp add: split_pop_rock)
  moreover have "SongGenre_tbl spec_db = [(1, 1), (1, 2)]"
    and "Genre_tbl spec_db = [(1, ''pop''), (2, ''rock'')]"
    by (simp_all add: spec_db_def)
  moreover have "map genre (load_and_preprocess_data [spec_row]) = [''pop, rock'']"
    by (simp add: spec_row_loaded)
  ultimately show ?thesis using ret by simp
qed

section \<open>The empty genre field\<close>





section \<open>Where the artist name is put into canonical form\<close>



section \<open>An artist that is not in the store\<close>



section \<open>The query side uses the same canonical form\<close>



end
